theory Spec2Isabelle
  imports Complex_Main "HOL-Library.Log_Nat" "HOL-Library.Signed_Division"
begin

section \<open>Espresso: the session state machine and its formatters\<close>

text \<open>
  A shallow embedding of \<^verbatim>\<open>main.go\<close>. The session variables of \<^verbatim>\<open>onReady\<close> become a
  record that is passed through the handlers; every call that leaves the process (the
  serialized power request, tray and menu updates, notifications) becomes an entry of an
  effect list, in program order. Clock readings are inputs: an event carries the value
  that \<^verbatim>\<open>time.Now()\<close> returns while the event is handled. The platform the program is
  built for is an input too, where the size of \<^verbatim>\<open>int\<close> matters.
\<close>

subsection \<open>Go integers, \<^verbatim>\<open>fmt\<close> and \<^verbatim>\<open>float64\<close>\<close>

text \<open>
  A \<^verbatim>\<open>time.Duration\<close> is an \<^verbatim>\<open>int64\<close> count of nanoseconds. Durations are integers here;
  \<open>int64\<close> is the range of the type and \<open>wrap64\<close> the two's-complement wrap-around of
  an arithmetic result, written wherever Go's arithmetic can leave the range.
  Go's \<^verbatim>\<open>/\<close> and \<^verbatim>\<open>%\<close> truncate towards zero: \<open>sdiv\<close> and \<open>smod\<close>.
\<close>

type_synonym duration = int

abbreviation Second :: duration where "Second \<equiv> 1000000000"
abbreviation Minute :: duration where "Minute \<equiv> 60000000000"
abbreviation Hour :: duration where "Hour \<equiv> 3600000000000"
abbreviation minDuration :: duration where "minDuration \<equiv> - 9223372036854775808"
abbreviation maxDuration :: duration where "maxDuration \<equiv> 9223372036854775807"

definition int64 :: "int \<Rightarrow> bool" where
  "int64 x = (minDuration \<le> x \<and> x \<le> maxDuration)"

definition wrap64 :: "int \<Rightarrow> int" where
  "wrap64 x = (x + 9223372036854775808) mod 18446744073709551616 - 9223372036854775808"

definition uint64 :: "int \<Rightarrow> int" where
  "uint64 x = x mod 18446744073709551616"

text \<open>The verb \<^verbatim>\<open>%d\<close> of \<^verbatim>\<open>fmt.Sprintf\<close>: decimal digits, with a minus sign below zero.\<close>

definition digit :: "nat \<Rightarrow> char" where
  "digit n = ''0123456789'' ! n"

fun showNat :: "nat \<Rightarrow> string" where
  "showNat n = (if n < 10 then [digit n] else showNat (n div 10) @ [digit (n mod 10)])"

declare showNat.simps [simp del]

definition showInt :: "int \<Rightarrow> string" where
  "showInt i = (if i < 0 then CHR ''-'' # showNat (nat (- i)) else showNat (nat i))"

text \<open>
  \<^verbatim>\<open>float64\<close> values are the real numbers they denote. \<open>float64\<close> rounds a real to the
  nearest number with a 53-bit significand, ties to even, as IEEE 754 binary64 does for
  every conversion and arithmetic result; the exponent range is not modelled (all
  values below lie between \<open>2\<^sup>-\<^sup>4\<^sup>2\<close> and \<open>2\<^sup>3\<^sup>4\<close> in magnitude, or are zero).
  \<open>ilog2 x\<close> is the binary exponent of a positive \<open>x\<close>.
\<close>

definition pow2 :: "int \<Rightarrow> real" where
  "pow2 e = (if 0 \<le> e then 2 ^ nat e else 1 / 2 ^ nat (- e))"

definition ilog2 :: "real \<Rightarrow> int" where
  "ilog2 x = (if 1 \<le> x then bitlen \<lfloor>x\<rfloor> - 1 else - bitlen (\<lceil>1 / x\<rceil> - 1))"

definition roundEven :: "real \<Rightarrow> int" where
  "roundEven s =
     (let f = \<lfloor>s\<rfloor>; r = s - of_int f
      in if r < 1 / 2 then f else if 1 / 2 < r then f + 1 else if even f then f else f + 1)"

definition float64 :: "real \<Rightarrow> real" where
  "float64 x =
     (if x = 0 then 0
      else let e = ilog2 \<bar>x\<bar>
           in sgn x * of_int (roundEven (\<bar>x\<bar> / pow2 (e - 52))) * pow2 (e - 52))"

text \<open>
  The conversion \<^verbatim>\<open>int(f)\<close> of a \<^verbatim>\<open>float64\<close> drops the fraction (towards zero) when the
  result fits \<^verbatim>\<open>int\<close>; when it does not, the conversion succeeds and its value depends on
  the implementation (Go specification, Conversions). \<^verbatim>\<open>int\<close> has 32 or 64 bits, by the
  target of the build. \<open>go_int\<close> is the conversion of a value that fits. A \<open>platform\<close>
  gives the size of \<^verbatim>\<open>int\<close> and the value of a conversion that does not fit, and
  \<open>go_int_on\<close> is the conversion there. On x86 that value is the smallest \<^verbatim>\<open>int\<close>:
  \<open>windows_amd64\<close> and \<open>windows_386\<close> are the two x86 targets of this Windows program.
\<close>

definition go_int :: "real \<Rightarrow> int" where
  "go_int f = (if 0 \<le> f then \<lfloor>f\<rfloor> else \<lceil>f\<rceil>)"

record platform =
  intSize :: nat
  convOverflow :: "real \<Rightarrow> int"

definition fitsInt :: "platform \<Rightarrow> int \<Rightarrow> bool" where
  "fitsInt p t = (- (2 ^ (intSize p - 1)) \<le> t \<and> t < 2 ^ (intSize p - 1))"

definition go_int_on :: "platform \<Rightarrow> real \<Rightarrow> int" where
  "go_int_on p f = (if fitsInt p (go_int f) then go_int f else convOverflow p f)"

definition windows_amd64 :: platform where
  "windows_amd64 = \<lparr>intSize = 64, convOverflow = (\<lambda>f. - 9223372036854775808)\<rparr>"


subsection \<open>Package \<^verbatim>\<open>time\<close>\<close>

text \<open>
  The methods of \<^verbatim>\<open>time.Duration\<close> that the program calls, after the Go standard
  library. \<^verbatim>\<open>Seconds\<close>, \<^verbatim>\<open>Minutes\<close> and \<^verbatim>\<open>Hours\<close> split the count into an integral part
  and a remainder and add the two as \<^verbatim>\<open>float64\<close>:
  \<^verbatim>\<open>
  func (d Duration) Minutes() float64 {
      min := d / Minute
      nsec := d % Minute
      return float64(min) + float64(nsec)/(60*1e9)
  }
  \<close>
  and likewise with \<^verbatim>\<open>Second\<close> and \<^verbatim>\<open>1e9\<close>, \<^verbatim>\<open>Hour\<close> and \<^verbatim>\<open>60*60*1e9\<close>. Each conversion, the
  division and the sum round to \<^verbatim>\<open>float64\<close>.
\<close>

definition Seconds :: "duration \<Rightarrow> real" where
  "Seconds d =
     (let sec = d sdiv Second; nsec = d smod Second
      in float64 (float64 (of_int sec) + float64 (float64 (of_int nsec) / 1000000000)))"

definition Minutes :: "duration \<Rightarrow> real" where
  "Minutes d =
     (let min = d sdiv Minute; nsec = d smod Minute
      in float64 (float64 (of_int min) + float64 (float64 (of_int nsec) / 60000000000)))"

definition Hours :: "duration \<Rightarrow> real" where
  "Hours d =
     (let hour = d sdiv Hour; nsec = d smod Hour
      in float64 (float64 (of_int hour) + float64 (float64 (of_int nsec) / 3600000000000)))"

text \<open>
  \<^verbatim>\<open>Round\<close> rounds to the nearest multiple of \<open>m\<close>, halfway values away from zero, and
  returns the largest (smallest) duration when the result would leave the type:
  \<^verbatim>\<open>
  func lessThanHalf(x, y Duration) bool {
      return uint64(x)+uint64(x) < uint64(y)
  }
  func (d Duration) Round(m Duration) Duration {
      if m <= 0 { return d }
      r := d % m
      if d < 0 {
          r = -r
          if lessThanHalf(r, m) { return d + r }
          if d1 := d - m + r; d1 < d { return d1 }
          return minDuration // overflow
      }
      if lessThanHalf(r, m) { return d - r }
      if d1 := d + m - r; d1 > d { return d1 }
      return maxDuration // overflow
  }
  \<close>
\<close>

definition lessThanHalf :: "duration \<Rightarrow> duration \<Rightarrow> bool" where
  "lessThanHalf x y = (uint64 (uint64 x + uint64 x) < uint64 y)"

definition Round :: "duration \<Rightarrow> duration \<Rightarrow> duration" where
  "Round d m =
     (if m \<le> 0 then d
      else let r = d smod m
           in if d < 0
              then (let r = wrap64 (- r)
                    in if lessThanHalf r m then wrap64 (d + r)
                       else let d1 = wrap64 (wrap64 (d - m) + r)
                            in if d1 < d then d1 else minDuration)
              else if lessThanHalf r m then wrap64 (d - r)
                   else let d1 = wrap64 (wrap64 (d + m) - r)
                        in if d1 > d then d1 else maxDuration)"

text \<open>
  An instant is a reading of the process clock in nanoseconds. \<^verbatim>\<open>t.Add(d)\<close> moves it by
  \<open>d\<close>; \<^verbatim>\<open>time.Until(t)\<close> is \<^verbatim>\<open>t.Sub(time.Now())\<close>, a duration, which \<^verbatim>\<open>Sub\<close> pins to the
  largest or smallest duration when the difference does not fit.
\<close>

type_synonym instant = int

definition Add :: "instant \<Rightarrow> duration \<Rightarrow> instant" where
  "Add t d = t + d"

definition Sub :: "instant \<Rightarrow> instant \<Rightarrow> duration" where
  "Sub t u =
     (if maxDuration < t - u then maxDuration
      else if t - u < minDuration then minDuration
      else t - u)"

definition Until :: "instant \<Rightarrow> instant \<Rightarrow> duration" where
  "Until now t = Sub t now"

subsection \<open>Mode definitions\<close>

record EspressoMode =
  Name :: string
  Duration :: duration
  Desc :: string

definition modes :: "EspressoMode list" where
  "modes =
    [\<lparr>Name = ''Milk'', Duration = 3 * Minute, Desc = ''No caffeine, just for testing purposes.''\<rparr>,
     \<lparr>Name = ''Drop'', Duration = 10 * Minute, Desc = ''Just a drop, almost no caffeine.''\<rparr>,
     \<lparr>Name = ''Latte'', Duration = 30 * Minute, Desc = ''Gentle boost to get you started.''\<rparr>,
     \<lparr>Name = ''Cappuccino'', Duration = 1 * Hour,
      Desc = ''Noticeable caffeine, perfectly balanced.''\<rparr>,
     \<lparr>Name = ''Americano'', Duration = 3 * Hour, Desc = ''Stronger, long-lasting alertness.''\<rparr>,
     \<lparr>Name = ''Espresso'', Duration = 6 * Hour, Desc = ''Concentrated, powerful kick.''\<rparr>,
     \<lparr>Name = ''Lungo'', Duration = 8 * Hour, Desc = ''Super concentrated, extended energy.''\<rparr>,
     \<lparr>Name = ''Doppio'', Duration = 12 * Hour,
      Desc = ''Double espresso, full-on focus all day.''\<rparr>,
     \<lparr>Name = ''Pure Caffeine'', Duration = - 1, Desc = ''Maximum alertness, use with caution.''\<rparr>]"

subsection \<open>Formatters\<close>

text \<open>
  \<open>formatDuration\<close> converts a number of seconds that can be as large as 9223372036,
  so its result depends on the platform. \<open>formatFriendlyDuration\<close> converts at most
  153722868 minutes or 2562047 hours, which fit an \<^verbatim>\<open>int\<close> of 32 bits.
\<close>

definition formatDuration :: "platform \<Rightarrow> duration \<Rightarrow> string" where
  "formatDuration p d0 =
     (let d = Round d0 Second;
          totalSeconds = go_int_on p (Seconds d);
          totalSeconds = (if totalSeconds < 0 then 0 else totalSeconds);
          h = totalSeconds sdiv 3600;
          m = (totalSeconds sdiv 60) smod 60;
          s = totalSeconds smod 60
      in showInt h @ ''h '' @ showInt m @ ''m '' @ showInt s @ ''s'')"

definition formatFriendlyDuration :: "duration \<Rightarrow> string" where
  "formatFriendlyDuration d =
     (if d < 0 then ''Infinity''
      else if d \<ge> Hour \<and> d smod Hour = 0 then showInt (go_int (Hours d)) @ ''h''
      else showInt (go_int (Minutes d)) @ ''m'')"

subsection \<open>Effects\<close>

text \<open>
  \<open>ExecOnMainThread c\<close> is one call \<^verbatim>\<open>execOnMainThread(func() { c() })\<close>: the thunk is sent
  over \<^verbatim>\<open>execStateCh\<close> and the caller waits until the locked thread has run it.
  \<^verbatim>\<open>allowSleep\<close> and \<^verbatim>\<open>preventSleep\<close> are the two thunks the program ever submits.
  \<open>Go e\<close> is an effect started in a goroutine of its own.
\<close>

datatype powerCall = allowSleep | preventSleep

datatype icon = iconData | icoffData

datatype iconFile = iconPath | icoffPath

datatype menuItem = mInfo | mMode | mTimeLeft | mStop | mQuit

datatype effect =
    StartExecThread
  | ExecOnMainThread powerCall
  | EnsureResourceFiles
  | LoadConfig
  | SetIcon icon
  | SetTitle string
  | SetTooltip string
  | AddMenuItem string string
  | AddSeparator
  | ItemSetTitle menuItem string
  | ItemShow menuItem
  | ItemHide menuItem
  | ItemDisable menuItem
  | ShowToast string string iconFile
  | ShowAbout
  | Go effect
  | SystrayQuit
  | CloseInstanceMutex
  | CloseExecStateCh

subsection \<open>State variables of \<^verbatim>\<open>onReady\<close>\<close>

record session =
  isActive :: bool
  isInfinite :: bool
  sessionEndTime :: instant
  currentModeName :: string

text \<open>The variables start at Go's zero values (the zero \<^verbatim>\<open>time.Time\<close> is instant 0 here).\<close>

definition initialSession :: session where
  "initialSession =
     \<lparr>isActive = False, isInfinite = False, sessionEndTime = 0, currentModeName = []\<rparr>"

definition resetState :: "session \<Rightarrow> session \<times> effect list" where
  "resetState s =
     (s\<lparr>isActive := False, isInfinite := False, currentModeName := ''Decaf''\<rparr>,
      [ExecOnMainThread allowSleep,
       SetIcon icoffData,
       ItemSetTitle mMode ''Mode: Decaf'',
       SetTooltip ''Espresso: Decaf (Sleep allowed)'',
       ItemHide mTimeLeft])"

text \<open>The loop of \<^verbatim>\<open>startSession\<close> over \<^verbatim>\<open>modes\<close>, leaving at the first match.\<close>

fun findName :: "EspressoMode list \<Rightarrow> duration \<Rightarrow> string \<Rightarrow> string" where
  "findName [] d foundName = foundName"
| "findName (m # ms) d foundName = (if Duration m = d then Name m else findName ms d foundName)"

definition startSession :: "instant \<Rightarrow> duration \<Rightarrow> session \<Rightarrow> session \<times> effect list" where
  "startSession now d s =
     (let s = s\<lparr>isActive := True\<rparr>;
          foundName = findName modes d ''Custom'';
          s = s\<lparr>currentModeName := foundName\<rparr>;
          out = [ExecOnMainThread preventSleep, SetIcon iconData]
      in if d < 0
         then (s\<lparr>isInfinite := True\<rparr>,
               out @ [ItemSetTitle mMode (''Mode: '' @ foundName @ '' (Infinite)''),
                      ItemHide mTimeLeft,
                      SetTooltip ''Espresso: Caffeine High (No Sleep)''])
         else (s\<lparr>isInfinite := False, sessionEndTime := Add now d\<rparr>,
               out @ [ItemSetTitle mMode
                        (''Mode: '' @ foundName @ '' ('' @ formatFriendlyDuration d @ '')''),
                      ItemShow mTimeLeft]))"

subsection \<open>Main loop\<close>

text \<open>
  One constructor for each case of the \<^verbatim>\<open>select\<close>. \<open>Control m now\<close> is a mode received
  from \<^verbatim>\<open>controlCh\<close> and \<open>Tick now\<close> a tick of the one-second ticker, each with the clock
  reading taken while it is handled.
\<close>

datatype event =
    InfoClicked
  | QuitClicked
  | StopClicked
  | Control EspressoMode instant
  | Tick instant

definition onTick :: "platform \<Rightarrow> instant \<Rightarrow> session \<Rightarrow> session \<times> effect list" where
  "onTick p now s =
     (if \<not> isActive s then (s, [])
      else if isInfinite s then (s, [])
      else let remaining = Until now (sessionEndTime s)
           in if remaining \<le> 0
              then (let (s, out) = resetState s
                    in (s, out @ [Go (ShowToast ''Espresso Finished''
                                        ''System is now allowed to sleep'' icoffPath)]))
              else (let timeStr = formatDuration p remaining
                    in (s, [ItemSetTitle mTimeLeft (''Time left: '' @ timeStr),
                            SetTooltip (currentModeName s @ '' mode: '' @ timeStr
                                        @ '' remaining'')])))"

definition onControl :: "EspressoMode \<Rightarrow> instant \<Rightarrow> session \<Rightarrow> session \<times> effect list" where
  "onControl m now s =
     (let d = Duration m;
          (s, out) = startSession now d s;
          durationText =
            (if d < 0 then ''Preventing sleep indefinitely''
             else Desc m @ [CHR 0x0A] @ ''Preventing sleep for '' @ formatFriendlyDuration d)
      in (s, out @ [ShowToast (Name m @ '' Mode Started'') durationText iconPath]))"

definition onStop :: "session \<Rightarrow> session \<times> effect list" where
  "onStop s =
     (let (s, out) = resetState s
      in (s, out @ [ShowToast ''Espresso Stopped'' ''System is now allowed to sleep'' icoffPath]))"

text \<open>
  The loop on a finite stream of events: the session after them and the effects they
  caused. \<^verbatim>\<open>QuitClicked\<close> returns from the goroutine, so the events behind it are never
  received.
\<close>

fun mainLoop :: "platform \<Rightarrow> session \<Rightarrow> event list \<Rightarrow> session \<times> effect list" where
  "mainLoop p s [] = (s, [])"
| "mainLoop p s (InfoClicked # es) =
     (let (s', out) = mainLoop p s es in (s', Go ShowAbout # out))"
| "mainLoop p s (QuitClicked # es) = (s, [SystrayQuit])"
| "mainLoop p s (StopClicked # es) =
     (let (s1, out1) = onStop s; (s', out) = mainLoop p s1 es in (s', out1 @ out))"
| "mainLoop p s (Control m now # es) =
     (let (s1, out1) = onControl m now s; (s', out) = mainLoop p s1 es in (s', out1 @ out))"
| "mainLoop p s (Tick now # es) =
     (let (s1, out1) = onTick p now s; (s', out) = mainLoop p s1 es in (s', out1 @ out))"

subsection \<open>Process start and exit\<close>

text \<open>
  What \<^verbatim>\<open>onReady\<close> does before it starts the main loop, then \<^verbatim>\<open>onExit\<close> and \<^verbatim>\<open>main\<close>.
  The result of \<^verbatim>\<open>enforceSingleInstance()\<close> (whether the named mutex was free) is an
  input of \<open>main\<close>; \<^verbatim>\<open>systray.Run\<close> calls \<^verbatim>\<open>onReady\<close>, and \<^verbatim>\<open>onExit\<close> after
  \<^verbatim>\<open>systray.Quit()\<close>.
\<close>

definition onReady :: "effect list" where
  "onReady =
     [EnsureResourceFiles,
      SetIcon icoffData,
      SetTitle ''Espresso'',
      SetTooltip ''Espresso: Decaf (Sleep allowed)'',
      LoadConfig,
      AddMenuItem ''About Espresso'' ''Show info'',
      AddSeparator,
      AddMenuItem ''Mode: Decaf'' ''Current mode'',
      ItemDisable mMode,
      AddMenuItem [] [],
      ItemHide mTimeLeft,
      AddSeparator]
     @ map (\<lambda>mode. AddMenuItem
                       (Name mode @ '' ('' @ formatFriendlyDuration (Duration mode) @ '')'')
                       (Desc mode)) modes
     @ [AddSeparator,
        AddMenuItem ''Decaf (Stop)'' ''Allow computer to sleep'',
        AddSeparator,
        AddMenuItem ''Quit'' ''Exit program'']"

definition onExit :: "effect list" where
  "onExit = [CloseInstanceMutex, CloseExecStateCh]"

definition startup :: "bool \<Rightarrow> effect list" where
  "startup singleInstance =
     StartExecThread #
     (if \<not> singleInstance then []
      else ExecOnMainThread allowSleep # onReady)"

definition main :: "platform \<Rightarrow> bool \<Rightarrow> event list \<Rightarrow> effect list" where
  "main p singleInstance es =
     startup singleInstance @
     (if \<not> singleInstance then []
      else snd (mainLoop p initialSession es) @ (if QuitClicked \<in> set es then onExit else []))"

subsection \<open>The states of the specification\<close>

text \<open>
  The specification names three states. A session with \<open>isActive\<close> false and
  \<open>isInfinite\<close> true is none of them.
\<close>

datatype state = Decaf | ActiveTimed | ActiveInfinite

definition stateOf :: "session \<Rightarrow> state option" where
  "stateOf s =
     (if isActive s then (if isInfinite s then Some ActiveInfinite else Some ActiveTimed)
      else (if isInfinite s then None else Some Decaf))"

text \<open>The power requests among a list of effects, in order.\<close>

fun powerCalls :: "effect list \<Rightarrow> powerCall list" where
  "powerCalls [] = []"
| "powerCalls (ExecOnMainThread c # out) = c # powerCalls out"
| "powerCalls (e # out) = powerCalls out"

subsection \<open>The formatting rules of the specification\<close>



text \<open>The notification of a session that ran out, as \<^verbatim>\<open>onReady\<close> starts it.\<close>

definition finishedToast :: effect where
  "finishedToast =
     Go (ShowToast ''Espresso Finished'' ''System is now allowed to sleep'' icoffPath)"

text \<open>What every reachable session satisfies.\<close>

definition sessionInv :: "session \<Rightarrow> bool" where
  "sessionInv s = (stateOf s \<noteq> None \<and> (isActive s \<longrightarrow> currentModeName s \<noteq> []))"

section \<open>Rounding to \<^verbatim>\<open>float64\<close>\<close>

lemma pow2_powi: "pow2 e = 2 powi e"
  by (simp add: pow2_def power_int_def inverse_eq_divide power_one_over)

lemma pow2_pos: "0 < pow2 e"
  by (simp add: pow2_powi)

lemma pow2_add: "pow2 (a + b) = pow2 a * pow2 b"
  by (simp add: pow2_powi power_int_add)

lemma pow2_nat: "0 \<le> e \<Longrightarrow> pow2 e = of_int (2 ^ nat e)"
  by (simp add: pow2_def)

lemma pow2_less: "a < b \<Longrightarrow> pow2 a < pow2 b"
  by (simp add: pow2_powi power_int_strict_increasing)

lemma pow2_le: "a \<le> b \<Longrightarrow> pow2 a \<le> pow2 b"
  by (simp add: pow2_powi power_int_increasing)

lemma pow2_less_D: "pow2 a < pow2 b \<Longrightarrow> a < b"
  using pow2_le [of b a] by (cases "a < b") auto

lemma ilog2_bounds:
  assumes "0 < x"
  shows "pow2 (ilog2 x) \<le> x \<and> x < pow2 (ilog2 x + 1)"
proof (cases "1 \<le> x")
  case True
  define n where "n = \<lfloor>x\<rfloor>"
  have n: "0 < n" using True by (simp add: n_def)
  from bitlen_bounds [OF n] have b: "2 ^ nat (bitlen n - 1) \<le> n" "n < 2 ^ nat (bitlen n)"
    by auto
  have b1: "1 \<le> bitlen n" using n by (simp add: bitlen_alt_def)
  have e: "ilog2 x = bitlen n - 1" using True by (simp add: ilog2_def n_def)
  have "real_of_int (2 ^ nat (bitlen n - 1)) \<le> real_of_int n"
    using b(1) by (simp only: of_int_le_iff)
  also have "\<dots> \<le> x" by (simp add: n_def)
  finally have lo: "pow2 (ilog2 x) \<le> x"
    using b1 by (simp add: e pow2_def)
  have "n + 1 \<le> 2 ^ nat (bitlen n)" using b(2) by simp
  then have "real_of_int (n + 1) \<le> real_of_int (2 ^ nat (bitlen n))"
    by (simp only: of_int_le_iff)
  moreover have "x < real_of_int (n + 1)" by (simp add: n_def)
  ultimately have hi: "x < pow2 (ilog2 x + 1)"
    using b1 by (simp add: e pow2_def)
  from lo hi show ?thesis ..
next
  case False
  with assms have x: "0 < x" "x < 1" by auto
  define n where "n = \<lceil>1 / x\<rceil> - 1"
  have "1 < 1 / x" using x by simp
  then have "1 < \<lceil>1 / x\<rceil>" by (simp add: less_ceiling_iff)
  then have n: "0 < n" by (simp add: n_def)
  have n1: "real_of_int n < 1 / x" unfolding n_def by linarith
  have n2: "1 / x \<le> real_of_int (n + 1)" unfolding n_def by simp
  from bitlen_bounds [OF n] have b: "2 ^ nat (bitlen n - 1) \<le> n" "n < 2 ^ nat (bitlen n)"
    by auto
  have b1: "1 \<le> bitlen n" using n by (simp add: bitlen_alt_def)
  have e: "ilog2 x = - bitlen n" using False by (simp add: ilog2_def n_def)
  have "n + 1 \<le> 2 ^ nat (bitlen n)" using b(2) by simp
  then have "real_of_int (n + 1) \<le> real_of_int (2 ^ nat (bitlen n))"
    by (simp only: of_int_le_iff)
  with n2 have "1 / x \<le> 2 ^ nat (bitlen n)" by simp
  then have lo: "pow2 (ilog2 x) \<le> x"
    using x b1 by (simp add: e pow2_def field_simps)
  have "real_of_int (2 ^ nat (bitlen n - 1)) \<le> real_of_int n"
    using b(1) by (simp only: of_int_le_iff)
  then have "(2::real) ^ nat (bitlen n - 1) \<le> real_of_int n" by simp
  with n1 have "2 ^ nat (bitlen n - 1) < 1 / x" by linarith
  then have "x < 1 / 2 ^ nat (bitlen n - 1)"
    using x by (simp add: field_simps)
  then have hi: "x < pow2 (ilog2 x + 1)"
    using b1 by (auto simp: e pow2_def)
  from lo hi show ?thesis ..
qed

lemma ilog2_less: "0 < x \<Longrightarrow> x < pow2 b \<Longrightarrow> ilog2 x < b"
  using ilog2_bounds [of x] by (intro pow2_less_D) auto

lemma roundEven_ge: "of_int k \<le> s \<Longrightarrow> k \<le> roundEven s"
proof -
  assume "of_int k \<le> s"
  then have "k \<le> \<lfloor>s\<rfloor>" by (simp add: le_floor_iff)
  then show ?thesis by (auto simp: roundEven_def Let_def)
qed

lemma roundEven_le: "s \<le> of_int k \<Longrightarrow> roundEven s \<le> k"
proof -
  assume a: "s \<le> of_int k"
  show ?thesis
  proof (cases "s = of_int k")
    case True
    then show ?thesis by (simp add: roundEven_def Let_def)
  next
    case False
    with a have "s < of_int k" by simp
    then have "\<lfloor>s\<rfloor> < k" by (simp add: floor_less_iff)
    then show ?thesis by (auto simp: roundEven_def Let_def)
  qed
qed

lemma roundEven_less: "s + 1 / 2 < of_int k \<Longrightarrow> roundEven s < k"
proof -
  assume a: "s + 1 / 2 < of_int k"
  have f: "real_of_int \<lfloor>s\<rfloor> \<le> s" by simp
  show ?thesis
  proof (cases "s - of_int \<lfloor>s\<rfloor> < 1 / 2")
    case True
    have "real_of_int \<lfloor>s\<rfloor> < of_int k" using a f by linarith
    then have "\<lfloor>s\<rfloor> < k" by (simp only: of_int_less_iff)
    with True show ?thesis by (simp add: roundEven_def Let_def)
  next
    case False
    then have "real_of_int \<lfloor>s\<rfloor> + 1 \<le> s + 1 / 2" by linarith
    with a have "real_of_int (\<lfloor>s\<rfloor> + 1) < of_int k" by simp
    then have "\<lfloor>s\<rfloor> + 1 < k" by (simp only: of_int_less_iff)
    then show ?thesis by (auto simp: roundEven_def Let_def)
  qed
qed


lemma pow2_0: "pow2 0 = 1"
  by (simp add: pow2_def)

lemma pow2_inverse: "pow2 a * pow2 (- a) = 1"
  using pow2_add [of a "- a"] by (simp add: pow2_0)

lemma divide_pow2: "x / pow2 a = x * pow2 (- a)"
proof -
  have "pow2 a \<noteq> 0" using pow2_pos [of a] by simp
  then show ?thesis using pow2_inverse [of a] by (simp add: field_simps)
qed

lemma float64_0: "float64 0 = 0"
  by (simp add: float64_def)

lemma float64_minus: "float64 (- x) = - float64 x"
  by (simp add: float64_def Let_def sgn_minus)

lemma float64_pos:
  "0 < x \<Longrightarrow>
   float64 x = of_int (roundEven (x * pow2 (52 - ilog2 x))) * pow2 (ilog2 x - 52)"
  by (simp add: float64_def Let_def divide_pow2)

lemma scaled_int:
  "0 \<le> a \<Longrightarrow> real_of_int n * pow2 a = of_int (n * 2 ^ nat a)"
  by (simp add: pow2_def)

lemma float64_ge_int:
  assumes "0 < x" and "ilog2 x \<le> 52" and "of_int n \<le> x"
  shows "of_int n \<le> float64 x"
proof -
  let ?a = "52 - ilog2 x"
  have a: "0 \<le> ?a" using assms(2) by simp
  have "of_int n * pow2 ?a \<le> x * pow2 ?a"
    using assms(3) pow2_pos [of ?a] by (simp add: mult_right_mono)
  then have "of_int (n * 2 ^ nat ?a) \<le> x * pow2 ?a"
    by (simp only: scaled_int [OF a])
  then have "n * 2 ^ nat ?a \<le> roundEven (x * pow2 ?a)"
    by (rule roundEven_ge)
  then have "real_of_int (n * 2 ^ nat ?a) \<le> of_int (roundEven (x * pow2 ?a))"
    by (simp only: of_int_le_iff)
  then have "of_int n * pow2 ?a * pow2 (- ?a) \<le> of_int (roundEven (x * pow2 ?a)) * pow2 (- ?a)"
    using pow2_pos [of "- ?a"] by (simp only: scaled_int [OF a] mult_right_mono)
  then have "of_int n \<le> of_int (roundEven (x * pow2 ?a)) * pow2 (- ?a)"
    using pow2_inverse [of ?a] by (simp add: mult.assoc)
  then show ?thesis
    by (simp add: float64_pos [OF assms(1)])
qed

lemma float64_le_int:
  assumes "0 < x" and "ilog2 x \<le> 52" and "x \<le> of_int n"
  shows "float64 x \<le> of_int n"
proof -
  let ?a = "52 - ilog2 x"
  have a: "0 \<le> ?a" using assms(2) by simp
  have "x * pow2 ?a \<le> of_int n * pow2 ?a"
    using assms(3) pow2_pos [of ?a] by (simp add: mult_right_mono)
  then have "x * pow2 ?a \<le> of_int (n * 2 ^ nat ?a)"
    by (simp only: scaled_int [OF a])
  then have "roundEven (x * pow2 ?a) \<le> n * 2 ^ nat ?a"
    by (rule roundEven_le)
  then have "real_of_int (roundEven (x * pow2 ?a)) \<le> of_int (n * 2 ^ nat ?a)"
    by (simp only: of_int_le_iff)
  then have "of_int (roundEven (x * pow2 ?a)) * pow2 (- ?a) \<le> of_int n * pow2 ?a * pow2 (- ?a)"
    using pow2_pos [of "- ?a"] by (simp only: scaled_int [OF a] mult_right_mono)
  then have "of_int (roundEven (x * pow2 ?a)) * pow2 (- ?a) \<le> of_int n"
    using pow2_inverse [of ?a] by (simp add: mult.assoc)
  then show ?thesis
    by (simp add: float64_pos [OF assms(1)])
qed

lemma float64_less_int:
  assumes "0 < x" and "ilog2 x \<le> 52" and "x + pow2 (ilog2 x - 53) < of_int n"
  shows "float64 x < of_int n"
proof -
  let ?a = "52 - ilog2 x"
  have a: "0 \<le> ?a" using assms(2) by simp
  have h: "pow2 (ilog2 x - 53) * pow2 ?a = 1 / 2"
    using pow2_add [of "ilog2 x - 53" ?a] by (simp add: pow2_def)
  have "(x + pow2 (ilog2 x - 53)) * pow2 ?a < of_int n * pow2 ?a"
    using assms(3) pow2_pos [of ?a] by (simp add: mult_strict_right_mono)
  then have "x * pow2 ?a + 1 / 2 < of_int n * pow2 ?a"
    by (simp add: distrib_right h)
  then have "x * pow2 ?a + 1 / 2 < of_int (n * 2 ^ nat ?a)"
    by (simp only: scaled_int [OF a])
  then have "roundEven (x * pow2 ?a) < n * 2 ^ nat ?a"
    by (rule roundEven_less)
  then have "real_of_int (roundEven (x * pow2 ?a)) < of_int (n * 2 ^ nat ?a)"
    by (simp only: of_int_less_iff)
  then have "of_int (roundEven (x * pow2 ?a)) * pow2 (- ?a) < of_int n * pow2 ?a * pow2 (- ?a)"
    using pow2_pos [of "- ?a"] by (simp only: scaled_int [OF a] mult_strict_right_mono)
  then have "of_int (roundEven (x * pow2 ?a)) * pow2 (- ?a) < of_int n"
    using pow2_inverse [of ?a] by (simp add: mult.assoc)
  then show ?thesis
    by (simp add: float64_pos [OF assms(1)])
qed

lemma float64_nonneg: "0 \<le> x \<Longrightarrow> 0 \<le> float64 x"
proof (cases "x = 0")
  case True
  then show ?thesis by (simp add: float64_0)
next
  case False
  assume "0 \<le> x"
  with False have x: "0 < x" by simp
  have "0 \<le> x * pow2 (52 - ilog2 x)" using x pow2_pos [of "52 - ilog2 x"] by simp
  then have "real_of_int 0 \<le> x * pow2 (52 - ilog2 x)" by simp
  then have "0 \<le> roundEven (x * pow2 (52 - ilog2 x))" by (rule roundEven_ge)
  then show ?thesis
    using pow2_pos [of "ilog2 x - 52"] by (simp add: float64_pos [OF x])
qed

lemma float64_of_int_pos:
  assumes "0 < n" and "n < 2 ^ 53"
  shows "float64 (of_int n) = of_int n"
proof -
  have x: "0 < real_of_int n" using assms(1) by simp
  have "real_of_int n < real_of_int (2 ^ 53)" using assms(2) by (simp only: of_int_less_iff)
  then have "real_of_int n < pow2 53" by (simp add: pow2_def)
  from ilog2_less [OF x this] have e: "ilog2 (of_int n) \<le> 52" by simp
  from float64_ge_int [OF x e, of n] float64_le_int [OF x e, of n] show ?thesis by simp
qed

lemma float64_of_int:
  assumes "\<bar>n\<bar> < 2 ^ 53"
  shows "float64 (of_int n) = of_int n"
proof -
  consider "n = 0" | "0 < n" | "n < 0" by linarith
  then show ?thesis
  proof cases
    case 1
    then show ?thesis by (simp add: float64_0)
  next
    case 2
    with assms show ?thesis by (simp add: float64_of_int_pos)
  next
    case 3
    with assms have "0 < - n" "- n < 2 ^ 53" by simp_all
    from float64_of_int_pos [OF this] have "float64 (- of_int n) = - of_int n" by simp
    then show ?thesis by (simp add: float64_minus)
  qed
qed

lemma float64_le_grid:
  assumes "0 < x" and "x \<le> of_int k * pow2 j" and "k < 2 ^ 53"
  shows "float64 x \<le> of_int k * pow2 j"
proof -
  let ?e = "ilog2 x"
  have k: "0 < k"
  proof (rule ccontr)
    assume "\<not> 0 < k"
    then have "real_of_int k \<le> 0" by simp
    then have "of_int k * pow2 j \<le> 0" using pow2_pos [of j] by (simp add: mult_le_0_iff)
    with assms(1,2) show False by simp
  qed
  have "real_of_int k < real_of_int (2 ^ 53)" using assms(3) by (simp only: of_int_less_iff)
  then have "real_of_int k < pow2 53" by (simp add: pow2_def)
  then have "of_int k * pow2 j < pow2 53 * pow2 j"
    using pow2_pos [of j] by (simp add: mult_strict_right_mono)
  then have "x < pow2 (53 + j)" using assms(2) by (simp add: pow2_add)
  from ilog2_less [OF assms(1) this] have a: "0 \<le> j + (52 - ?e)" by simp
  have "x * pow2 (52 - ?e) \<le> of_int k * pow2 j * pow2 (52 - ?e)"
    using assms(2) pow2_pos [of "52 - ?e"] by (simp add: mult_right_mono)
  then have "x * pow2 (52 - ?e) \<le> of_int k * pow2 (j + (52 - ?e))"
    by (simp add: pow2_add mult.assoc)
  then have "x * pow2 (52 - ?e) \<le> of_int (k * 2 ^ nat (j + (52 - ?e)))"
    by (simp only: scaled_int [OF a])
  then have "roundEven (x * pow2 (52 - ?e)) \<le> k * 2 ^ nat (j + (52 - ?e))"
    by (rule roundEven_le)
  then have "real_of_int (roundEven (x * pow2 (52 - ?e))) \<le> of_int (k * 2 ^ nat (j + (52 - ?e)))"
    by (simp only: of_int_le_iff)
  then have "real_of_int (roundEven (x * pow2 (52 - ?e))) \<le> of_int k * pow2 (j + (52 - ?e))"
    by (simp only: scaled_int [OF a])
  then have "real_of_int (roundEven (x * pow2 (52 - ?e))) * pow2 (?e - 52)
      \<le> of_int k * pow2 (j + (52 - ?e)) * pow2 (?e - 52)"
    using pow2_pos [of "?e - 52"] by (simp only: mult_right_mono)
  also have "of_int k * pow2 (j + (52 - ?e)) * pow2 (?e - 52) = of_int k * pow2 j"
    using pow2_add [of "j + (52 - ?e)" "?e - 52"] by (simp add: mult.assoc)
  finally show ?thesis
    by (simp add: float64_pos [OF assms(1)])
qed

lemma sdiv_nonneg: "0 \<le> a \<Longrightarrow> 0 < b \<Longrightarrow> a sdiv b = a div (b::int)"
  by (cases "a = 0") (simp_all add: signed_divide_int_def)

lemma smod_nonneg: "0 \<le> a \<Longrightarrow> 0 < b \<Longrightarrow> a smod b = a mod (b::int)"
  by (cases "a = 0") (simp_all add: signed_modulo_int_def)

lemma sdiv_neg: "a < 0 \<Longrightarrow> 0 < b \<Longrightarrow> a sdiv b = - ((- a) div (b::int))"
  by (simp add: signed_divide_int_def)

lemma smod_neg: "a < 0 \<Longrightarrow> 0 < b \<Longrightarrow> a smod b = - ((- a) mod (b::int))"
  by (simp add: signed_modulo_int_def)

lemma go_int_of_int: "go_int (of_int n) = n"
  by (simp add: go_int_def)

lemma go_int_between:
  "0 \<le> m \<Longrightarrow> of_int m \<le> f \<Longrightarrow> f < of_int (m + 1) \<Longrightarrow> go_int f = m"
proof -
  assume a: "0 \<le> m" "of_int m \<le> f" "f < of_int (m + 1)"
  then have "0 \<le> f" by (simp add: order_trans [of 0 "real_of_int m" f])
  moreover have "\<lfloor>f\<rfloor> = m" using a by (intro floor_unique) simp_all
  ultimately show ?thesis by (simp add: go_int_def)
qed

lemma trunc_add:
  assumes m: "0 \<le> m" and x: "real_of_int m + b < pow2 E" and E: "E \<le> 53"
    and b0: "0 \<le> b" and b1: "b + pow2 (E - 54) < 1"
  shows "go_int (float64 (of_int m + b)) = m"
proof (cases "real_of_int m + b = 0")
  case True
  with m b0 have "real_of_int m = 0 \<and> b = 0" by (simp add: add_nonneg_eq_0_iff)
  then have "m = 0" "b = 0" by simp_all
  then show ?thesis by (simp add: float64_0 go_int_def)
next
  case False
  let ?x = "real_of_int m + b"
  from False m b0 have pos: "0 < ?x" by (simp add: add_nonneg_nonneg less_le)
  from ilog2_less [OF pos x] E have e: "ilog2 ?x \<le> 52" "ilog2 ?x - 53 \<le> E - 54" by simp_all
  have lo: "of_int m \<le> float64 ?x"
    using b0 by (intro float64_ge_int [OF pos e(1)]) simp
  have "?x + pow2 (ilog2 ?x - 53) \<le> ?x + pow2 (E - 54)"
    using pow2_le [OF e(2)] by simp
  also have "\<dots> < of_int (m + 1)" using b1 by simp
  finally have hi: "float64 ?x < of_int (m + 1)"
    by (rule float64_less_int [OF pos e(1)])
  from go_int_between [OF m lo hi] show ?thesis .
qed

lemma float64_quot_le:
  assumes "0 \<le> n" and "real_of_int n / D \<le> of_int k * pow2 j" and "k < 2 ^ 53" and "0 < D"
    and "0 \<le> k"
  shows "0 \<le> float64 (of_int n / D) \<and> float64 (of_int n / D) \<le> of_int k * pow2 j"
proof (cases "n = 0")
  case True
  then show ?thesis using assms(5) pow2_pos [of j] by (simp add: float64_0)
next
  case False
  with assms(1,4) have pos: "0 < real_of_int n / D" by simp
  from float64_le_grid [OF pos assms(2,3)] float64_nonneg [of "real_of_int n / D"] pos
  show ?thesis by simp
qed

section \<open>\<^verbatim>\<open>Minutes\<close> and \<^verbatim>\<open>Hours\<close> as integers\<close>

lemma Minutes_nonneg:
  assumes "0 \<le> d" and "d \<le> maxDuration"
  shows "Minutes d =
    float64 (of_int (d div Minute) + float64 (of_int (d mod Minute) / 60000000000))"
proof -
  have 1: "\<bar>d mod Minute\<bar> < 2 ^ 53"
    using pos_mod_bound [of Minute d] pos_mod_sign [of Minute d] by simp
  have "0 \<le> d div Minute" "d div Minute \<le> maxDuration div Minute"
    using assms by (simp_all add: pos_imp_zdiv_nonneg_iff zdiv_mono1)
  then have 2: "\<bar>d div Minute\<bar> < 2 ^ 53" by simp
  show ?thesis
    using assms(1)
    by (simp add: Minutes_def Let_def sdiv_nonneg smod_nonneg
        float64_of_int [OF 1] float64_of_int [OF 2])
qed

lemma minute_fraction:
  assumes "0 \<le> r" and "r \<le> 59999999999"
  shows "0 \<le> float64 (of_int r / 60000000000)
    \<and> float64 (of_int r / 60000000000) \<le> 549755813879 / 549755813888"
proof -
  have "real_of_int r \<le> 59999999999" using assms(2) by simp
  then have "real_of_int r / 60000000000 \<le> 59999999999 / 60000000000"
    by (simp add: divide_right_mono)
  also have "\<dots> \<le> (549755813879 :: real) / 549755813888" by simp
  finally have "real_of_int r / 60000000000 \<le> of_int 549755813879 * pow2 (- 39)"
    by (simp add: pow2_def)
  from float64_quot_le [OF assms(1) this] show ?thesis by (simp add: pow2_def)
qed

lemma minute_fraction':
  assumes "0 \<le> r" and "r \<le> 59999999998"
  shows "0 \<le> float64 (of_int r / 60000000000)
    \<and> float64 (of_int r / 60000000000) \<le> 274877906935 / 274877906944"
proof -
  have "real_of_int r \<le> 59999999998" using assms(2) by simp
  then have "real_of_int r / 60000000000 \<le> 59999999998 / 60000000000"
    by (simp add: divide_right_mono)
  also have "\<dots> \<le> (274877906935 :: real) / 274877906944" by simp
  finally have "real_of_int r / 60000000000 \<le> of_int 274877906935 * pow2 (- 38)"
    by (simp add: pow2_def)
  from float64_quot_le [OF assms(1) this] show ?thesis by (simp add: pow2_def)
qed

lemma Minutes_floor:
  assumes "0 \<le> d" and "d < 15728699999999999"
  shows "go_int (Minutes d) = d div Minute"
proof -
  let ?m = "d div Minute" and ?r = "d mod Minute"
  let ?b = "float64 (of_int ?r / 60000000000)"
  have M: "Minutes d = float64 (of_int ?m + ?b)"
    using assms by (intro Minutes_nonneg) simp_all
  have m0: "0 \<le> ?m" using assms(1) by (simp add: pos_imp_zdiv_nonneg_iff)
  have r: "0 \<le> ?r" "?r \<le> 59999999999"
    using pos_mod_bound [of Minute d] pos_mod_sign [of Minute d] by simp_all
  have "?m \<le> 15728699999999998 div Minute" using assms(2) by (intro zdiv_mono1) simp_all
  then have m1: "?m \<le> 262144" by simp
  show ?thesis
  proof (cases "?m < 262144")
    case True
    from minute_fraction [OF r] have b: "0 \<le> ?b" "?b \<le> 549755813879 / 549755813888"
      by simp_all
    have "real_of_int ?m \<le> 262143" using True by simp
    with b(2) have x: "real_of_int ?m + ?b < pow2 18" by (simp add: pow2_def)
    have b1: "?b + pow2 (18 - 54) < 1" using b(2) by (simp add: pow2_def)
    from trunc_add [OF m0 x _ b(1) b1] show ?thesis by (simp add: M)
  next
    case False
    with m1 have m: "?m = 262144" by simp
    have "d = ?m * Minute + ?r" by simp
    with assms(2) m have "?r \<le> 59999999998" by linarith
    from minute_fraction' [OF r(1) this]
    have b: "0 \<le> ?b" "?b \<le> 274877906935 / 274877906944" by simp_all
    have x: "real_of_int ?m + ?b < pow2 19" using b(2) by (simp only: m) (simp add: pow2_def)
    have b1: "?b + pow2 (19 - 54) < 1" using b(2) by (simp add: pow2_def)
    from trunc_add [OF m0 x _ b(1) b1] show ?thesis by (simp add: M)
  qed
qed

lemma go_int_between_le:
  "0 \<le> m \<Longrightarrow> of_int m \<le> f \<Longrightarrow> f \<le> of_int (m + 1) \<Longrightarrow> go_int f = m \<or> go_int f = m + 1"
proof -
  assume a: "0 \<le> m" "of_int m \<le> f" "f \<le> of_int (m + 1)"
  then have f0: "0 \<le> f" by (simp add: order_trans [of 0 "real_of_int m" f])
  show ?thesis
  proof (cases "f = of_int (m + 1)")
    case True
    then show ?thesis using a(1) by (simp add: go_int_def)
  next
    case False
    with a(3) have "f < of_int (m + 1)" by simp
    from go_int_between [OF a(1,2) this] show ?thesis by simp
  qed
qed

lemma Minutes_near_floor:
  assumes "0 \<le> d" and "d \<le> maxDuration"
  shows "go_int (Minutes d) = d div Minute \<or> go_int (Minutes d) = d div Minute + 1"
proof -
  let ?m = "d div Minute" and ?r = "d mod Minute"
  let ?b = "float64 (of_int ?r / 60000000000)"
  let ?x = "real_of_int ?m + ?b"
  have M: "Minutes d = float64 ?x"
    using assms by (rule Minutes_nonneg)
  have m0: "0 \<le> ?m" using assms(1) by (simp add: pos_imp_zdiv_nonneg_iff)
  have r: "0 \<le> ?r" "?r \<le> 59999999999"
    using pos_mod_bound [of Minute d] pos_mod_sign [of Minute d] by simp_all
  from minute_fraction [OF r] have b: "0 \<le> ?b" "?b \<le> 549755813879 / 549755813888"
    by simp_all
  have "?m \<le> maxDuration div Minute" using assms(2) by (intro zdiv_mono1) simp_all
  then have m1: "real_of_int ?m \<le> 153722867" by simp
  show ?thesis
  proof (cases "?x = 0")
    case True
    with m0 b(1) have "real_of_int ?m = 0 \<and> ?b = 0" by (simp add: add_nonneg_eq_0_iff)
    then have "?m = 0" "?x = 0" by simp_all
    then show ?thesis by (simp only: M) (simp add: float64_0 go_int_def)
  next
    case False
    with m0 b(1) have pos: "0 < ?x" by (simp add: add_nonneg_nonneg less_le)
    have "?x < pow2 28" using m1 b(2) by (simp add: pow2_def)
    from ilog2_less [OF pos this] have e: "ilog2 ?x \<le> 52" by simp
    have lo: "of_int ?m \<le> float64 ?x"
      using b(1) by (intro float64_ge_int [OF pos e]) simp
    have hi: "float64 ?x \<le> of_int (?m + 1)"
      using b(2) by (intro float64_le_int [OF pos e]) simp
    from go_int_between_le [OF m0 lo hi] show ?thesis by (simp only: M)
  qed
qed

lemma Hours_exact:
  assumes "0 \<le> d" and "d \<le> maxDuration" and "d mod Hour = 0"
  shows "go_int (Hours d) = d div Hour"
proof -
  have "0 \<le> d div Hour" "d div Hour \<le> maxDuration div Hour"
    using assms by (simp_all add: pos_imp_zdiv_nonneg_iff zdiv_mono1)
  then have 2: "\<bar>d div Hour\<bar> < 2 ^ 53" by simp
  show ?thesis
    using assms(1,3)
    by (simp add: Hours_def Let_def sdiv_nonneg smod_nonneg float64_0
        float64_of_int [OF 2] go_int_of_int)
qed

section \<open>\<^verbatim>\<open>Round\<close> to the second, and \<^verbatim>\<open>Seconds\<close>\<close>

lemma wrap64_id: "int64 x \<Longrightarrow> wrap64 x = x"
  by (simp add: wrap64_def int64_def)

lemma wrap64_add_left: "wrap64 (wrap64 a + b) = wrap64 (a + b)"
proof -
  have "(wrap64 a + b + 9223372036854775808) mod 18446744073709551616
      = (a + b + 9223372036854775808) mod 18446744073709551616"
    unfolding wrap64_def by (simp add: mod_simps algebra_simps)
  then show ?thesis by (simp add: wrap64_def)
qed



lemma wrap64_under:
  "x < minDuration \<Longrightarrow> minDuration - Second \<le> x \<Longrightarrow> wrap64 x = x + 18446744073709551616"
proof -
  assume a: "x < minDuration" "minDuration - Second \<le> x"
  have "(x + 9223372036854775808) mod 18446744073709551616
      = x + 9223372036854775808 + 18446744073709551616"
    using a by (intro int_mod_pos_eq [where q = "- 1"]) simp_all
  then show ?thesis by (simp add: wrap64_def)
qed

lemma lessThanHalf_Second:
  "0 \<le> r \<Longrightarrow> r < Second \<Longrightarrow> lessThanHalf r Second \<longleftrightarrow> 2 * r < Second"
  by (simp add: lessThanHalf_def uint64_def)


lemma Round_neg:
  assumes "d < 0" and "minDuration \<le> d"
  shows "Round d Second =
    (if 2 * ((- d) mod Second) < Second then d + (- d) mod Second
     else if minDuration \<le> d + (- d) mod Second - Second then d + (- d) mod Second - Second
     else minDuration)"
proof -
  let ?r = "(- d) mod Second"
  have r: "0 \<le> ?r" "?r < Second"
    using pos_mod_bound [of Second "- d"] pos_mod_sign [of Second "- d"] by simp_all
  have "?r \<le> - d" using assms(1) by (intro zmod_le_nonneg_dividend) simp
  then have rd: "d + ?r \<le> 0" by simp
  have sm: "d smod Second = - ?r" using assms(1) by (simp add: smod_neg)
  have "int64 ?r" unfolding int64_def using r by linarith
  then have 0: "wrap64 ?r = ?r"
    by (rule wrap64_id)
  have 1: "wrap64 (d + ?r) = d + ?r"
    using assms r rd by (intro wrap64_id) (simp add: int64_def)
  have "wrap64 (wrap64 (d - Second) + ?r) = wrap64 (d - Second + ?r)"
    by (rule wrap64_add_left)
  then have 2: "wrap64 (wrap64 (d - Second) + ?r) = wrap64 (d + ?r - Second)"
    by (simp add: algebra_simps)
  have 3: "wrap64 (d + ?r - Second) = d + ?r - Second" if "minDuration \<le> d + ?r - Second"
    using that assms r rd by (intro wrap64_id) (simp add: int64_def)
  have 4: "wrap64 (d + ?r - Second) = d + ?r - Second + 18446744073709551616"
    if "\<not> minDuration \<le> d + ?r - Second"
    using that assms r by (intro wrap64_under) simp_all
  show ?thesis
  proof (cases "2 * ?r < Second")
    case True
    then show ?thesis
      using assms(1) by (simp add: Round_def sm 0 lessThanHalf_Second [OF r] 1 Let_def)
  next
    case False
    show ?thesis
    proof (cases "minDuration \<le> d + ?r - Second")
      case True
      with False r assms(1) show ?thesis
        by (simp add: Round_def sm 0 lessThanHalf_Second [OF r] 2 3 Let_def)
    next
      case F: False
      with False r assms show ?thesis
        by (simp add: Round_def sm 0 lessThanHalf_Second [OF r] 2 4 Let_def)
    qed
  qed
qed

lemma Seconds_multiple:
  assumes "int64 d" and "d mod Second = 0"
  shows "go_int (Seconds d) = d div Second"
proof -
  have dv: "Second dvd d" using assms(2) by (simp add: dvd_eq_mod_eq_0)
  have "minDuration \<le> d" "d \<le> maxDuration" using assms(1) by (simp_all add: int64_def)
  from zdiv_mono1 [OF this(1), of Second] zdiv_mono1 [OF this(2), of Second]
  have 2: "\<bar>d div Second\<bar> < 2 ^ 53" by simp
  have sd: "d sdiv Second = d div Second"
  proof (cases "0 \<le> d")
    case True
    then show ?thesis by (simp add: sdiv_nonneg)
  next
    case False
    then have "d sdiv Second = - ((- d) div Second)" by (simp add: sdiv_neg)
    also have "\<dots> = d div Second" using dv by (simp add: dvd_neg_div)
    finally show ?thesis .
  qed
  have sm: "d smod Second = 0"
  proof (cases "0 \<le> d")
    case True
    then show ?thesis using assms(2) by (simp add: smod_nonneg)
  next
    case False
    have "(- d) mod Second = 0" using dv by (simp add: dvd_eq_mod_eq_0 [symmetric])
    with False show ?thesis by (simp add: smod_neg)
  qed
  show ?thesis
    by (simp add: Seconds_def Let_def sd sm float64_0 float64_of_int [OF 2] go_int_of_int)
qed


lemma Seconds_minDuration: "go_int (Seconds minDuration) = - 9223372036"
  by (simp add: Seconds_def signed_divide_int_def signed_modulo_int_def go_int_def
    float64_def ilog2_def compute_bitlen Let_def roundEven_def pow2_def)


lemma totalSeconds_neg:
  assumes "d < 0" and "minDuration \<le> d"
  shows "go_int (Seconds (Round d Second)) \<le> 0"
proof -
  define q where "q = (- d) div Second"
  define r where "r = (- d) mod Second"
  have d: "d = - (Second * q) - r"
    unfolding q_def r_def using mult_div_mod_eq [of Second "- d"] by linarith
  have r: "0 \<le> r" "r < Second"
    using pos_mod_bound [of Second "- d"] pos_mod_sign [of Second "- d"]
    by (simp_all add: r_def)
  have q: "0 \<le> q" using assms(1) by (simp add: q_def pos_imp_zdiv_nonneg_iff)
  have R: "Round d Second =
    (if 2 * r < Second then Second * (- q)
     else if minDuration \<le> Second * (- q - 1) then Second * (- q - 1)
     else minDuration)"
    using Round_neg [OF assms] by (simp add: r_def [symmetric]) (simp add: d)
  have m: "go_int (Seconds (Second * k)) = k" if "int64 (Second * k)" for k
    using Seconds_multiple [OF that] by simp
  show ?thesis
  proof (cases "2 * r < Second")
    case True
    have "int64 (Second * (- q))" using q assms d r by (simp add: int64_def)
    from m [OF this] True q show ?thesis by (simp add: R)
  next
    case False
    show ?thesis
    proof (cases "minDuration \<le> Second * (- q - 1)")
      case True
      then have "int64 (Second * (- q - 1))" using q by (simp add: int64_def)
      from m [OF this] False True q show ?thesis by (simp add: R)
    next
      case F: False
      with False show ?thesis by (simp add: R Seconds_minDuration)
    qed
  qed
qed

section \<open>The countdown formatter\<close>



















section \<open>The friendly-duration formatter\<close>

lemma showInt_10: "showInt 10 = ''10''"
  by (simp add: showInt_def showNat.simps digit_def)

lemma showInt_1: "showInt 1 = ''1''"
  by (simp add: showInt_def showNat.simps digit_def)

lemma showInt_90: "showInt 90 = ''90''"
  by (simp add: showInt_def showNat.simps digit_def)

lemma friendly_negative: "d < 0 \<Longrightarrow> formatFriendlyDuration d = ''Infinity''"
  by (simp add: formatFriendlyDuration_def)

lemma friendly_hours:
  assumes "int64 d" and "Hour \<le> d" and "d mod Hour = 0"
  shows "formatFriendlyDuration d = showInt (d div Hour) @ ''h''"
proof -
  from assms(1,2) have d: "0 \<le> d" "d \<le> maxDuration" by (simp_all add: int64_def)
  from Hours_exact [OF d assms(3)] assms(2,3) d(1) show ?thesis
    by (simp add: formatFriendlyDuration_def smod_nonneg)
qed

lemma friendly_minutes_eq:
  assumes "0 \<le> d" and "\<not> (Hour \<le> d \<and> d mod Hour = 0)"
  shows "formatFriendlyDuration d = showInt (go_int (Minutes d)) @ ''m''"
  using assms by (auto simp: formatFriendlyDuration_def smod_nonneg)

lemma friendly_minutes:
  assumes "0 \<le> d" and "\<not> (Hour \<le> d \<and> d mod Hour = 0)" and "d < 15728699999999999"
  shows "formatFriendlyDuration d = showInt (d div Minute) @ ''m''"
  using friendly_minutes_eq [OF assms(1,2)] Minutes_floor [OF assms(1,3)] by simp

lemma friendly_minutes_near:
  assumes "int64 d" and "0 \<le> d" and "\<not> (Hour \<le> d \<and> d mod Hour = 0)"
  shows "formatFriendlyDuration d = showInt (d div Minute) @ ''m''
       \<or> formatFriendlyDuration d = showInt (d div Minute + 1) @ ''m''"
proof -
  from assms(1) have "d \<le> maxDuration" by (simp add: int64_def)
  from Minutes_near_floor [OF assms(2) this] friendly_minutes_eq [OF assms(2,3)]
  show ?thesis by auto
qed

lemma friendly_10m: "formatFriendlyDuration (10 * Minute) = ''10m''"
  using friendly_minutes [of "10 * Minute"] by (simp add: showInt_10)

lemma friendly_1h: "formatFriendlyDuration (1 * Hour) = ''1h''"
proof -
  have "int64 (1 * Hour)" by (simp add: int64_def)
  from friendly_hours [OF this] show ?thesis by (simp add: showInt_1)
qed

lemma friendly_90m: "formatFriendlyDuration (90 * Minute) = ''90m''"
  using friendly_minutes [of "90 * Minute"] by (simp add: showInt_90)

lemma friendly_sentinel: "formatFriendlyDuration (- 1) = ''Infinity''"
  by (simp add: friendly_negative)

text \<open>
  Claim C6, as the code has it. Every negative duration, the sentinel \<open>- 1\<close> of
  \<open>modes\<close> among them, formats as "Infinity". A duration of at least one hour that is a
  multiple of an hour formats as "N h" with \<open>N\<close> the number of hours. Any other duration
  formats as "N m" with \<open>N = int(d.Minutes())\<close>: the whole minutes, floored, for every
  duration below 15728699999999999 ns (262144 min 59.999999999 s), and the floor or one
  more from there on. Ten minutes give "10m", one hour "1h", ninety minutes "90m", the
  sentinel "Infinity".
\<close>

theorem formatFriendlyDuration_cases:
  assumes "int64 d"
  shows "(d < 0 \<longrightarrow> formatFriendlyDuration d = ''Infinity'')
    \<and> (Hour \<le> d \<and> d mod Hour = 0 \<longrightarrow> formatFriendlyDuration d = showInt (d div Hour) @ ''h'')
    \<and> (0 \<le> d \<and> \<not> (Hour \<le> d \<and> d mod Hour = 0) \<and> d < 15728699999999999 \<longrightarrow>
         formatFriendlyDuration d = showInt (d div Minute) @ ''m'')
    \<and> (0 \<le> d \<and> \<not> (Hour \<le> d \<and> d mod Hour = 0) \<longrightarrow>
         formatFriendlyDuration d = showInt (d div Minute) @ ''m''
         \<or> formatFriendlyDuration d = showInt (d div Minute + 1) @ ''m'')
    \<and> formatFriendlyDuration (10 * Minute) = ''10m''
    \<and> formatFriendlyDuration (1 * Hour) = ''1h''
    \<and> formatFriendlyDuration (90 * Minute) = ''90m''
    \<and> formatFriendlyDuration (- 1) = ''Infinity''"
proof -
  have 1: "d < 0 \<longrightarrow> formatFriendlyDuration d = ''Infinity''"
    by (simp add: friendly_negative)
  have 2: "Hour \<le> d \<and> d mod Hour = 0 \<longrightarrow> formatFriendlyDuration d = showInt (d div Hour) @ ''h''"
    using friendly_hours [OF assms] by (intro impI) (elim conjE)
  have 3: "0 \<le> d \<and> \<not> (Hour \<le> d \<and> d mod Hour = 0) \<and> d < 15728699999999999 \<longrightarrow>
         formatFriendlyDuration d = showInt (d div Minute) @ ''m''"
    using friendly_minutes [of d] by (intro impI) (elim conjE)
  have 4: "0 \<le> d \<and> \<not> (Hour \<le> d \<and> d mod Hour = 0) \<longrightarrow>
         formatFriendlyDuration d = showInt (d div Minute) @ ''m''
         \<or> formatFriendlyDuration d = showInt (d div Minute + 1) @ ''m''"
    using friendly_minutes_near [OF assms] by (intro impI) (elim conjE)
  show ?thesis
    by (intro conjI) (rule 1 2 3 4 friendly_10m friendly_1h friendly_90m friendly_sentinel)+
qed

theorem formatFriendlyDuration_cases_witness:
  "int64 (- 2 * Minute) \<and> formatFriendlyDuration (- 2 * Minute) = ''Infinity''
   \<and> int64 (3 * Hour) \<and> formatFriendlyDuration (3 * Hour) = showInt 3 @ ''h''
   \<and> int64 (90 * Minute + 59 * Second)
   \<and> formatFriendlyDuration (90 * Minute + 59 * Second) = showInt 90 @ ''m''"
  using formatFriendlyDuration_cases [of "- 2 * Minute"]
    formatFriendlyDuration_cases [of "3 * Hour"]
    formatFriendlyDuration_cases [of "90 * Minute + 59 * Second"]
  by (simp add: int64_def)

text \<open>
  The first duration that is not floored: 262144 min 59.999999999 s, whose floor is
  262144 minutes. \<^verbatim>\<open>Minutes\<close> adds \<open>59999999999 / 60000000000\<close> to 262144 in
  \<^verbatim>\<open>float64\<close>. Between \<open>2\<^sup>1\<^sup>8\<close> and \<open>2\<^sup>1\<^sup>9\<close> the values of the type are
  \<open>2\<^sup>-\<^sup>3\<^sup>4\<close> apart; the sum is nearer to 262145 than to the value below it, so
  it is 262145 and the program prints "262145m".
\<close>

lemma Minutes_rounds_up: "go_int (Minutes 15728699999999999) = 262145"
  by (simp add: Minutes_def signed_divide_int_def signed_modulo_int_def go_int_def
    float64_def ilog2_def compute_bitlen Let_def roundEven_def pow2_def)

theorem formatFriendlyDuration_not_floored:
  "formatFriendlyDuration 15728699999999999 = ''262145m''
   \<and> showInt (15728699999999999 div Minute) @ ''m'' = ''262144m''"
proof -
  have 1: "formatFriendlyDuration 15728699999999999 = showInt 262145 @ ''m''"
    using friendly_minutes_eq [of 15728699999999999] by (simp add: Minutes_rounds_up)
  have 2: "showInt 262145 = ''262145''"
    by (simp add: showInt_def showNat.simps digit_def)
  have 3: "showInt 262144 = ''262144''"
    by (simp add: showInt_def showNat.simps digit_def)
  show ?thesis by (simp add: 1 2 3)
qed

text \<open>
  The numbers that \<open>formatFriendlyDuration\<close> converts fit an \<^verbatim>\<open>int\<close> of either size,
  so that \<open>go_int\<close> is the conversion on every platform there.
\<close>

lemma friendly_conversions_fit:
  assumes "int64 d" and "0 \<le> d" and "intSize p = 32 \<or> intSize p = 64"
  shows "go_int_on p (Minutes d) = go_int (Minutes d)"
    and "d mod Hour = 0 \<Longrightarrow> go_int_on p (Hours d) = go_int (Hours d)"
proof -
  from assms(1) have le: "d \<le> maxDuration" by (simp add: int64_def)
  have m0: "0 \<le> d div Minute" using assms(2) by (simp add: pos_imp_zdiv_nonneg_iff)
  from zdiv_mono1 [OF le, of Minute] have m1: "d div Minute \<le> 153722867" by simp
  from Minutes_near_floor [OF assms(2) le] m0 m1 assms(3)
  have "fitsInt p (go_int (Minutes d))" by (auto simp: fitsInt_def)
  then show "go_int_on p (Minutes d) = go_int (Minutes d)" by (simp add: go_int_on_def)
  assume h: "d mod Hour = 0"
  have h0: "0 \<le> d div Hour" using assms(2) by (simp add: pos_imp_zdiv_nonneg_iff)
  from zdiv_mono1 [OF le, of Hour] have h1: "d div Hour \<le> 2562047" by simp
  from Hours_exact [OF assms(2) le h] h0 h1 assms(3)
  have "fitsInt p (go_int (Hours d))" by (auto simp: fitsInt_def)
  then show "go_int_on p (Hours d) = go_int (Hours d)" by (simp add: go_int_on_def)
qed

section \<open>The handlers, one by one\<close>

lemma findName_find:
  "findName ms d c = (case find (\<lambda>m. Duration m = d) ms of Some m \<Rightarrow> Name m | None \<Rightarrow> c)"
  by (induction ms) auto

lemma findName_nonempty:
  "c \<noteq> [] \<Longrightarrow> \<forall>m \<in> set ms. Name m \<noteq> [] \<Longrightarrow> findName ms d c \<noteq> []"
  by (induction ms) auto

lemma modes_names_nonempty: "\<forall>m \<in> set modes. Name m \<noteq> []"
  by (simp add: modes_def)

lemma foundName_nonempty: "findName modes d ''Custom'' \<noteq> []"
  by (rule findName_nonempty) (simp_all add: modes_names_nonempty)

lemma powerCalls_append: "powerCalls (xs @ ys) = powerCalls xs @ powerCalls ys"
  by (induction xs rule: powerCalls.induct) auto

lemma resetState_session:
  "fst (resetState s) = s\<lparr>isActive := False, isInfinite := False, currentModeName := ''Decaf''\<rparr>"
  by (simp add: resetState_def)

lemma resetState_powerCalls: "powerCalls (snd (resetState s)) = [allowSleep]"
  by (simp add: resetState_def)

lemma startSession_session:
  "fst (startSession now d s) =
     (if d < 0
      then s\<lparr>isActive := True, currentModeName := findName modes d ''Custom'',
             isInfinite := True\<rparr>
      else s\<lparr>isActive := True, currentModeName := findName modes d ''Custom'',
             isInfinite := False, sessionEndTime := now + d\<rparr>)"
  by (simp add: startSession_def Let_def Add_def)

lemma startSession_powerCalls: "powerCalls (snd (startSession now d s)) = [preventSleep]"
  by (simp add: startSession_def Let_def)

lemma onControl_session: "fst (onControl m now s) = fst (startSession now (Duration m) s)"
  by (simp add: onControl_def Let_def split: prod.splits)

lemma onControl_powerCalls: "powerCalls (snd (onControl m now s)) = [preventSleep]"
  using startSession_powerCalls [of now "Duration m" s]
  by (cases "startSession now (Duration m) s")
     (simp add: onControl_def Let_def powerCalls_append)

lemma onStop_session: "fst (onStop s) = fst (resetState s)"
  by (simp add: onStop_def split: prod.splits)

lemma onStop_powerCalls: "powerCalls (snd (onStop s)) = [allowSleep]"
  by (simp add: onStop_def resetState_def)

lemma Until_le_0: "Until now t \<le> 0 \<longleftrightarrow> t \<le> now"
  by (simp add: Until_def Sub_def)

lemma onTick_Decaf: "\<not> isActive s \<Longrightarrow> onTick p now s = (s, [])"
  by (simp add: onTick_def)

lemma onTick_expired:
  "isActive s \<Longrightarrow> \<not> isInfinite s \<Longrightarrow> sessionEndTime s \<le> now \<Longrightarrow>
   onTick p now s = (fst (resetState s), snd (resetState s) @ [finishedToast])"
  by (simp add: onTick_def Let_def Until_le_0 split_beta finishedToast_def)

lemma mainLoop_single_Control: "mainLoop p s [Control m now] = onControl m now s"
  by (simp add: split_beta)

lemma mainLoop_single_Stop: "mainLoop p s [StopClicked] = onStop s"
  by (simp add: split_beta)

lemma mainLoop_ticks_Decaf: "\<not> isActive s \<Longrightarrow> mainLoop p s (map Tick ts) = (s, [])"
  by (induction ts) (simp_all add: onTick_Decaf)

lemma mainLoop_append:
  "QuitClicked \<notin> set es1 \<Longrightarrow>
   mainLoop p s (es1 @ es2)
     = (fst (mainLoop p (fst (mainLoop p s es1)) es2),
        snd (mainLoop p s es1) @ snd (mainLoop p (fst (mainLoop p s es1)) es2))"
proof (induction es1 arbitrary: s)
  case Nil
  then show ?case by simp
next
  case (Cons e es1)
  then have IH: "\<And>s. mainLoop p s (es1 @ es2)
     = (fst (mainLoop p (fst (mainLoop p s es1)) es2),
        snd (mainLoop p s es1) @ snd (mainLoop p (fst (mainLoop p s es1)) es2))"
    by simp
  from Cons.prems show ?case
    by (cases e) (simp_all add: IH split_beta)
qed

lemma onTick_running:
  "isActive s \<Longrightarrow> \<not> isInfinite s \<Longrightarrow> now < sessionEndTime s \<Longrightarrow>
   onTick p now s =
     (s, [ItemSetTitle mTimeLeft
            (''Time left: '' @ formatDuration p (Until now (sessionEndTime s))),
          SetTooltip (currentModeName s @ '' mode: ''
                      @ formatDuration p (Until now (sessionEndTime s)) @ '' remaining'')])"
  using Until_le_0 [of now "sessionEndTime s"] by (simp add: onTick_def Let_def)

lemma mainLoop_ticks_running:
  assumes "isActive s" and "\<not> isInfinite s"
  shows "\<forall>t \<in> set ts. t < sessionEndTime s \<Longrightarrow>
    fst (mainLoop p s (map Tick ts)) = s
    \<and> powerCalls (snd (mainLoop p s (map Tick ts))) = []
    \<and> count_list (snd (mainLoop p s (map Tick ts))) finishedToast = 0"
  by (induction ts) (simp_all add: onTick_running [OF assms] split_beta finishedToast_def)

section \<open>The session is always in one of the three states\<close>

lemma inv_initial: "sessionInv initialSession"
  by (simp add: sessionInv_def initialSession_def stateOf_def)

lemma inv_onStop: "sessionInv (fst (onStop s))"
  by (simp add: onStop_session resetState_session sessionInv_def stateOf_def)

lemma inv_onControl: "sessionInv (fst (onControl m now s))"
  by (simp add: onControl_session startSession_session sessionInv_def stateOf_def
      foundName_nonempty)

lemma inv_onTick: "sessionInv s \<Longrightarrow> sessionInv (fst (onTick p now s))"
  by (auto simp: onTick_def Let_def resetState_def sessionInv_def stateOf_def
      split: if_splits)

lemma inv_mainLoop: "sessionInv s \<Longrightarrow> sessionInv (fst (mainLoop p s es))"
proof (induction es arbitrary: s)
  case Nil
  then show ?case by simp
next
  case (Cons e es)
  show ?case
  proof (cases e)
    case InfoClicked
    with Cons show ?thesis by (simp add: split_beta)
  next
    case QuitClicked
    with Cons show ?thesis by simp
  next
    case StopClicked
    with Cons.IH [OF inv_onStop, of s] show ?thesis by (simp add: split_beta)
  next
    case (Control m now)
    with Cons.IH [OF inv_onControl, of m now s] show ?thesis by (simp add: split_beta)
  next
    case (Tick now)
    with Cons.IH [OF inv_onTick, OF Cons.prems, of p now] show ?thesis
      by (simp add: split_beta)
  qed
qed

text \<open>
  Claim C1. Start from the initial session and let the loop handle any finite sequence
  of events. After each of them (after the first \<open>n\<close>, for every \<open>n\<close>) the session is
  in one of the states Decaf, Active-Timed and Active-Infinite, and in one only, since
  \<open>stateOf\<close> is a function; a session that is not active is not infinite; an active
  session has a mode name that is not empty.
\<close>

theorem session_invariant:
  "stateOf (fst (mainLoop p initialSession (take n es)))
     \<in> {Some Decaf, Some ActiveTimed, Some ActiveInfinite}
   \<and> (\<not> isActive (fst (mainLoop p initialSession (take n es)))
        \<longrightarrow> \<not> isInfinite (fst (mainLoop p initialSession (take n es))))
   \<and> (isActive (fst (mainLoop p initialSession (take n es)))
        \<longrightarrow> currentModeName (fst (mainLoop p initialSession (take n es))) \<noteq> [])"
proof -
  let ?s = "fst (mainLoop p initialSession (take n es))"
  have "sessionInv ?s" by (rule inv_mainLoop [OF inv_initial])
  then show ?thesis
    by (auto simp: sessionInv_def stateOf_def split: if_splits)
qed

theorem session_invariant_witness:
  "isActive (fst (mainLoop windows_amd64 initialSession (take 1
       [Control \<lparr>Name = ''Drop'', Duration = 10 * Minute, Desc = []\<rparr> 5, Tick 6])))
   \<and> currentModeName (fst (mainLoop windows_amd64 initialSession (take 1
       [Control \<lparr>Name = ''Drop'', Duration = 10 * Minute, Desc = []\<rparr> 5, Tick 6]))) \<noteq> []
   \<and> \<not> isActive (fst (mainLoop windows_amd64 initialSession (take 0 [StopClicked])))
   \<and> \<not> isInfinite (fst (mainLoop windows_amd64 initialSession (take 0 [StopClicked])))"
  using session_invariant [where p = windows_amd64 and n = 1 and es =
      "[Control \<lparr>Name = ''Drop'', Duration = 10 * Minute, Desc = []\<rparr> 5, Tick 6]"]
    session_invariant [where p = windows_amd64 and n = 0 and es = "[StopClicked]"]
  by (simp add: mainLoop_single_Control onControl_session startSession_session
      initialSession_def)

section \<open>Transitions\<close>

text \<open>
  Claim C2. From any session, handling a mode received from \<^verbatim>\<open>controlCh\<close> with a
  duration \<open>d \<ge> 0\<close> leaves the session Active-Timed with end time \<open>now + d\<close>, and with
  \<open>d < 0\<close> leaves it Active-Infinite; either way the handler submits one power request,
  \<^verbatim>\<open>preventSleep\<close>, and no other.
\<close>

theorem start_transition:
  "(0 \<le> Duration m \<longrightarrow>
      stateOf (fst (mainLoop p s [Control m now])) = Some ActiveTimed
      \<and> sessionEndTime (fst (mainLoop p s [Control m now])) = now + Duration m)
   \<and> (Duration m < 0 \<longrightarrow> stateOf (fst (mainLoop p s [Control m now])) = Some ActiveInfinite)
   \<and> powerCalls (snd (mainLoop p s [Control m now])) = [preventSleep]"
  by (simp add: mainLoop_single_Control onControl_session startSession_session
      onControl_powerCalls stateOf_def)

theorem start_transition_witness:
  "stateOf (fst (mainLoop windows_amd64 initialSession
       [Control \<lparr>Name = ''Drop'', Duration = 10 * Minute, Desc = []\<rparr> 5])) = Some ActiveTimed
   \<and> sessionEndTime (fst (mainLoop windows_amd64 initialSession
       [Control \<lparr>Name = ''Drop'', Duration = 10 * Minute, Desc = []\<rparr> 5])) = 600000000005
   \<and> stateOf (fst (mainLoop windows_amd64 initialSession
       [Control \<lparr>Name = ''Pure Caffeine'', Duration = - 1, Desc = []\<rparr> 5]))
       = Some ActiveInfinite"
  using start_transition
      [where m = "\<lparr>Name = ''Drop'', Duration = 10 * Minute, Desc = []\<rparr>"
         and p = windows_amd64 and s = initialSession and now = 5]
    start_transition
      [where m = "\<lparr>Name = ''Pure Caffeine'', Duration = - 1, Desc = []\<rparr>"
         and p = windows_amd64 and s = initialSession and now = 5]
  by simp

text \<open>
  Claim C3. In an Active-Timed session, a tick handled at or after the end time makes the
  session Decaf, submits one \<^verbatim>\<open>allowSleep\<close> and starts the "Espresso Finished"
  notification once. Any number of ticks handled after it change nothing: the session
  and the whole list of effects are those of the first tick alone. Ticks handled before
  the end time leave the session as it is, with no power request and no notification
  (they only refresh the countdown), so the first tick at or after the end time is the
  one that makes the transition; the whole run of ticks holds one power request and
  one notification.
\<close>

theorem expiry_once:
  assumes "stateOf s = Some ActiveTimed" and "sessionEndTime s \<le> now"
    and "\<forall>t \<in> set early. t < sessionEndTime s"
  shows "stateOf (fst (mainLoop p s [Tick now])) = Some Decaf
    \<and> powerCalls (snd (mainLoop p s [Tick now])) = [allowSleep]
    \<and> count_list (snd (mainLoop p s [Tick now])) finishedToast = 1
    \<and> mainLoop p s (Tick now # map Tick ts) = mainLoop p s [Tick now]
    \<and> fst (mainLoop p s (map Tick early)) = s
    \<and> powerCalls (snd (mainLoop p s (map Tick early))) = []
    \<and> count_list (snd (mainLoop p s (map Tick early))) finishedToast = 0
    \<and> mainLoop p s (map Tick early @ Tick now # map Tick ts)
        = (fst (mainLoop p s [Tick now]),
           snd (mainLoop p s (map Tick early)) @ snd (mainLoop p s [Tick now]))
    \<and> stateOf (fst (mainLoop p s (map Tick early @ Tick now # map Tick ts))) = Some Decaf
    \<and> powerCalls (snd (mainLoop p s (map Tick early @ Tick now # map Tick ts))) = [allowSleep]
    \<and> count_list (snd (mainLoop p s (map Tick early @ Tick now # map Tick ts))) finishedToast
        = 1"
proof -
  from assms(1) have a: "isActive s" "\<not> isInfinite s"
    by (auto simp: stateOf_def split: if_splits)
  note t = onTick_expired [OF a assms(2)]
  have d: "\<not> isActive (fst (resetState s))"
    by (simp add: resetState_session)
  have 1: "mainLoop p s [Tick now] = (fst (resetState s), snd (resetState s) @ [finishedToast])"
    by (simp add: t)
  have 2: "mainLoop p s (Tick now # map Tick ts) = mainLoop p s [Tick now]"
    by (simp add: t mainLoop_ticks_Decaf [OF d])
  have 3: "count_list (snd (resetState s)) finishedToast = 0"
    by (simp add: resetState_def finishedToast_def)
  have 4: "powerCalls [finishedToast] = []"
    by (simp add: finishedToast_def)
  have 5: "stateOf (fst (resetState s)) = Some Decaf"
    by (simp add: resetState_session stateOf_def)
  have q: "QuitClicked \<notin> set (map Tick early)" by auto
  note e = mainLoop_ticks_running [OF a assms(3), of p]
  have 6: "mainLoop p s (map Tick early @ Tick now # map Tick ts)
      = (fst (resetState s),
         snd (mainLoop p s (map Tick early)) @ snd (resetState s) @ [finishedToast])"
    unfolding mainLoop_append [OF q] using e by (simp only: 2 1) simp
  show ?thesis
    unfolding 6 unfolding 2 unfolding 1 using e
    by (simp add: 3 4 5 powerCalls_append resetState_powerCalls)
qed

theorem expiry_once_witness:
  "stateOf \<lparr>isActive = True, isInfinite = False, sessionEndTime = 10,
            currentModeName = ''Drop''\<rparr> = Some ActiveTimed
   \<and> (10 :: int) \<le> 11
   \<and> (3 :: int) < 10 \<and> (7 :: int) < 10
   \<and> fst (mainLoop windows_amd64 \<lparr>isActive = True, isInfinite = False,
           sessionEndTime = 10, currentModeName = ''Drop''\<rparr> (map Tick [3, 7]))
       = \<lparr>isActive = True, isInfinite = False, sessionEndTime = 10,
           currentModeName = ''Drop''\<rparr>
   \<and> powerCalls (snd (mainLoop windows_amd64 \<lparr>isActive = True, isInfinite = False,
           sessionEndTime = 10, currentModeName = ''Drop''\<rparr>
           (map Tick [3, 7] @ Tick 11 # map Tick [12, 13])))
       = [allowSleep]
   \<and> count_list (snd (mainLoop windows_amd64 \<lparr>isActive = True, isInfinite = False,
           sessionEndTime = 10, currentModeName = ''Drop''\<rparr>
           (map Tick [3, 7] @ Tick 11 # map Tick [12, 13])))
         finishedToast = 1"
proof -
  let ?s = "\<lparr>isActive = True, isInfinite = False, sessionEndTime = 10,
            currentModeName = ''Drop''\<rparr>"
  have 1: "stateOf ?s = Some ActiveTimed" by (simp add: stateOf_def)
  have 2: "sessionEndTime ?s \<le> 11" by simp
  have 3: "\<forall>t \<in> set [3, 7]. t < sessionEndTime ?s" by simp
  have n: "(10 :: int) \<le> 11" "(3 :: int) < 10" "(7 :: int) < 10" by simp_all
  note t = expiry_once [OF 1 2 3, where p = windows_amd64 and ts = "[12, 13]"]
  from t have a: "fst (mainLoop windows_amd64 ?s (map Tick [3, 7])) = ?s"
    by (elim conjE)
  from t have b: "powerCalls (snd (mainLoop windows_amd64 ?s
      (map Tick [3, 7] @ Tick 11 # map Tick [12, 13]))) = [allowSleep]"
    by (elim conjE)
  from t have c: "count_list (snd (mainLoop windows_amd64 ?s
      (map Tick [3, 7] @ Tick 11 # map Tick [12, 13]))) finishedToast = 1"
    by (elim conjE)
  from 1 n a b c show ?thesis by (intro conjI)
qed

text \<open>
  Claim C4. From any session, the Decaf one included, handling a click on "Decaf (Stop)"
  leaves the session Decaf and submits one power request, \<^verbatim>\<open>allowSleep\<close>.
\<close>

theorem stop_transition:
  "stateOf (fst (mainLoop p s [StopClicked])) = Some Decaf
   \<and> powerCalls (snd (mainLoop p s [StopClicked])) = [allowSleep]"
  by (simp add: mainLoop_single_Stop onStop_session resetState_session onStop_powerCalls
      stateOf_def)

text \<open>
  Claim C8. Handling a received mode with duration \<open>d\<close> sets the mode name to the name of
  the first of the nine entries of \<open>modes\<close> whose duration is \<open>d\<close>, and to "Custom" when
  there is none. The state and the end time are functions of \<open>d\<close> alone (an infinite
  session keeps the end time it had).
\<close>

theorem start_mode_name:
  "currentModeName (fst (mainLoop p s [Control m now])) =
     (case find (\<lambda>preset. Duration preset = Duration m) modes of
        Some preset \<Rightarrow> Name preset | None \<Rightarrow> ''Custom'')
   \<and> length modes = 9
   \<and> stateOf (fst (mainLoop p s [Control m now])) =
       (if Duration m < 0 then Some ActiveInfinite else Some ActiveTimed)
   \<and> sessionEndTime (fst (mainLoop p s [Control m now])) =
       (if Duration m < 0 then sessionEndTime s else now + Duration m)"
  by (simp add: mainLoop_single_Control onControl_session startSession_session
      findName_find stateOf_def) (simp add: modes_def)

lemma mainLoop_until_quit:
  "QuitClicked \<notin> set es1 \<Longrightarrow>
   mainLoop p s (es1 @ QuitClicked # es2)
     = (fst (mainLoop p s es1), snd (mainLoop p s es1) @ [SystrayQuit])"
proof (induction es1 arbitrary: s)
  case Nil
  then show ?case by simp
next
  case (Cons e es1)
  then have IH: "\<And>s. mainLoop p s (es1 @ QuitClicked # es2)
      = (fst (mainLoop p s es1), snd (mainLoop p s es1) @ [SystrayQuit])"
    by simp
  from Cons.prems show ?case
    by (cases e) (simp_all add: IH split_beta)
qed

text \<open>
  Claim C9. A click on "Quit" ends the loop: the session is the one before the click, the
  only effect is \<^verbatim>\<open>systray.Quit()\<close>, the events behind the click are not handled, and
  neither the loop nor \<^verbatim>\<open>onExit\<close> submits a power request. After any events \<open>es1\<close>
  without a quit, the session and the effects are those of \<open>es1\<close>, then
  \<^verbatim>\<open>systray.Quit()\<close>: an active session stays as it is.
\<close>

theorem quit_no_transition:
  "mainLoop p s (QuitClicked # es) = (s, [SystrayQuit])
   \<and> powerCalls (snd (mainLoop p s (QuitClicked # es)) @ onExit) = []
   \<and> (QuitClicked \<notin> set es1 \<longrightarrow>
        mainLoop p s (es1 @ QuitClicked # es2)
          = (fst (mainLoop p s es1), snd (mainLoop p s es1) @ [SystrayQuit]))"
  by (simp add: onExit_def mainLoop_until_quit)

theorem quit_no_transition_witness:
  "QuitClicked \<notin> set [Control \<lparr>Name = ''Pure Caffeine'', Duration = - 1, Desc = []\<rparr> 5]
   \<and> stateOf (fst (mainLoop windows_amd64 initialSession
        ([Control \<lparr>Name = ''Pure Caffeine'', Duration = - 1, Desc = []\<rparr> 5]
          @ QuitClicked # [StopClicked]))) = Some ActiveInfinite
   \<and> powerCalls (snd (mainLoop windows_amd64 initialSession
        ([Control \<lparr>Name = ''Pure Caffeine'', Duration = - 1, Desc = []\<rparr> 5]
          @ QuitClicked # [StopClicked]))) = [preventSleep]"
  using quit_no_transition [of windows_amd64 initialSession "[]"
      "[Control \<lparr>Name = ''Pure Caffeine'', Duration = - 1, Desc = []\<rparr> 5]" "[StopClicked]"]
  by (simp add: mainLoop_single_Control onControl_session startSession_session
      onControl_powerCalls powerCalls_append stateOf_def initialSession_def)

section \<open>Process start\<close>

text \<open>
  Claim C10, as the code has it. \<^verbatim>\<open>main\<close> returns right after
  \<^verbatim>\<open>enforceSingleInstance()\<close> when another instance holds the mutex: then the program
  submits no power request, whatever events arrive. When the check succeeds, the effects
  that precede the main loop hold one power request, \<^verbatim>\<open>allowSleep\<close>, and everything the
  loop does comes after them.
\<close>

theorem startup_allowSleep:
  "(singleInstance \<longrightarrow>
      powerCalls (startup singleInstance) = [allowSleep]
      \<and> main p singleInstance es =
          startup singleInstance @ snd (mainLoop p initialSession es)
            @ (if QuitClicked \<in> set es then onExit else []))
   \<and> (\<not> singleInstance \<longrightarrow>
        powerCalls (startup singleInstance) = []
        \<and> powerCalls (main p singleInstance es) = [])"
  by (simp add: startup_def main_def onReady_def powerCalls_append modes_def)

theorem startup_allowSleep_witness:
  "powerCalls (startup True) = [allowSleep]
   \<and> main windows_amd64 True [] = startup True
   \<and> powerCalls (main windows_amd64 False [StopClicked, QuitClicked]) = []"
  using startup_allowSleep [where singleInstance = True and es = "[]" and p = windows_amd64]
    startup_allowSleep [where singleInstance = False and es = "[StopClicked, QuitClicked]"
      and p = windows_amd64]
  by simp

text \<open>The second instance of the program: no power request at all.\<close>

theorem startup_second_instance: "powerCalls (main windows_amd64 False [Tick 0]) = []"
  by (simp add: main_def startup_def)

end
